theory Spec2Isabelle
  imports Main "HOL-Library.List_Lexorder" "HOL-Library.Sublist"
begin

section \<open>Python values used by a2tex.py\<close>

text \<open>
  A Python \<^verbatim>\<open>str\<close> is a sequence of Unicode code points, so a string is modelled as
  the list of its code points (natural numbers). \<open>ascii\<close> turns an ASCII literal into
  such a list; the backslash is written as the code point 92.
\<close>

type_synonym codepoint = nat
type_synonym str = "codepoint list"

definition ascii :: "string \<Rightarrow> str" where
  "ascii s = map of_char s"

definition backslash :: codepoint where
  "backslash = 92"

definition tilde :: codepoint where
  "tilde = 126"

definition caret :: codepoint where
  "caret = 94"

text \<open>The exceptions the script can meet. The first three are raised by the builtins the
  script calls; the last two stand for what opening and reading the CSV file can raise.\<close>

datatype exception = ValueError | IndexError | AttributeError | FileNotFoundError | CsvError

text \<open>\<^verbatim>\<open>chr(i)\<close> raises ValueError outside \<^verbatim>\<open>range(0x110000)\<close>; \<^verbatim>\<open>ord\<close> of a
  one-character string is its code point.\<close>

definition chr :: "int \<Rightarrow> exception + str" where
  "chr i = (if 0 \<le> i \<and> i < 1114112 then Inr [nat i] else Inl ValueError)"

definition ord :: "codepoint \<Rightarrow> int" where
  "ord c = int c"

text \<open>\<^verbatim>\<open>xs.index(a)\<close>: the position of the first element equal to \<open>a\<close>, ValueError when
  there is none.\<close>

fun list_index :: "'a list \<Rightarrow> 'a \<Rightarrow> exception + nat" where
  "list_index [] a = Inl ValueError"
| "list_index (x # xs) a =
     (if x = a then Inr 0
      else (case list_index xs a of Inl e \<Rightarrow> Inl e | Inr i \<Rightarrow> Inr (Suc i)))"

section \<open>AffiliationList\<close>

text \<open>An affiliation index is a letter string or a number (\<^verbatim>\<open>get_id\<close> returns a
  \<^verbatim>\<open>str\<close> or an \<^verbatim>\<open>int\<close>, or \<^verbatim>\<open>None\<close>).\<close>

datatype index = Letters str | Number int

record AffiliationList =
  reg_list :: "str list"
  reg_index_letter :: bool

definition AffiliationList_init :: "bool \<Rightarrow> AffiliationList" where
  "AffiliationList_init index_letter = \<lparr>reg_list = [], reg_index_letter = index_letter\<rparr>"

text \<open>Lines 88 to 97 of \<^verbatim>\<open>get_id\<close>: the index built from the position found.\<close>

definition index_of_position :: "bool \<Rightarrow> nat \<Rightarrow> exception + index" where
  "index_of_position index_letter affiliation_index =
     (if index_letter then
        (let high_order = int affiliation_index div 26 in
         case (if high_order > 0 then chr (ord 97 + high_order - 1) else Inr []) of
           Inl e \<Rightarrow> Inl e
         | Inr id0 \<Rightarrow>
             (case chr (ord 97 + (int affiliation_index mod 26)) of
                Inl e \<Rightarrow> Inl e
              | Inr c \<Rightarrow> Inr (Letters (id0 @ c))))
      else Inr (Number (int affiliation_index + 1)))"

definition get_id :: "AffiliationList \<Rightarrow> str \<Rightarrow> exception + index option" where
  "get_id self affiliation =
     (case list_index (reg_list self) affiliation of
        Inl e \<Rightarrow> (if e = ValueError then Inr None else Inl e)
      | Inr affiliation_index \<Rightarrow>
          (case index_of_position (reg_index_letter self) affiliation_index of
             Inl e \<Rightarrow> Inl e
           | Inr i \<Rightarrow> Inr (Some i)))"

text \<open>\<^verbatim>\<open>add\<close> appends first and looks the string up afterwards; the list stays
  extended when the lookup raises.\<close>

definition add :: "AffiliationList \<Rightarrow> str \<Rightarrow> AffiliationList \<times> (exception + index option)" where
  "add self affiliation =
     (let self' = self\<lparr>reg_list := reg_list self @ [affiliation]\<rparr>
      in (self', get_id self' affiliation))"

text \<open>A run of \<^verbatim>\<open>add\<close> calls on one registry, whatever each call returned.\<close>

fun adds :: "AffiliationList \<Rightarrow> str list \<Rightarrow> AffiliationList" where
  "adds self [] = self"
| "adds self (a # as) = adds (fst (add self a)) as"

text \<open>The spec's words for the letter index: letters map 0 to a, ..., 25 to z, and the
  bijective base-26 numeral of a zero-based position.\<close>

definition spec_letter :: "nat \<Rightarrow> codepoint" where
  "spec_letter k = 97 + k"

definition is_lower_letter :: "codepoint \<Rightarrow> bool" where
  "is_lower_letter c = (97 \<le> c \<and> c \<le> 122)"

fun spec_bijective_base26 :: "nat \<Rightarrow> str" where
  "spec_bijective_base26 p =
     (if p < 26 then [spec_letter p]
      else spec_bijective_base26 (p div 26 - 1) @ [spec_letter (p mod 26)])"

section \<open>Text helpers\<close>

text \<open>
  The regular expression class \<^verbatim>\<open>\s\<close> on a \<^verbatim>\<open>str\<close> pattern, and \<^verbatim>\<open>str.strip()\<close>
  with no argument, both use the interpreter's Unicode whitespace test: the code points
  U+0009 to U+000D, U+001C to U+0020, U+0085, U+00A0, U+1680, U+2000 to U+200A, U+2028,
  U+2029, U+202F, U+205F and U+3000.
\<close>

definition is_space :: "codepoint \<Rightarrow> bool" where
  "is_space c =
     ((9 \<le> c \<and> c \<le> 13) \<or> (28 \<le> c \<and> c \<le> 32) \<or> c = 133 \<or> c = 160 \<or> c = 5760 \<or>
      (8192 \<le> c \<and> c \<le> 8202) \<or> c = 8232 \<or> c = 8233 \<or> c = 8239 \<or> c = 8287 \<or>
      c = 12288)"

definition strip :: "str \<Rightarrow> str" where
  "strip s = rev (dropWhile is_space (rev (dropWhile is_space s)))"

text \<open>\<^verbatim>\<open>re.split('\s', s)\<close>: every single whitespace character ends a token, so two
  whitespace characters in a row, or one at either end, give an empty token.\<close>

fun split_from :: "str \<Rightarrow> str \<Rightarrow> str list" where
  "split_from tok [] = [tok]"
| "split_from tok (c # cs) =
     (if is_space c then tok # split_from [] cs else split_from (tok @ [c]) cs)"

definition re_split_space :: "str \<Rightarrow> str list" where
  "re_split_space s = split_from [] s"

text \<open>
  \<^verbatim>\<open>str.capitalize()\<close> puts the first character into title case and the rest into lower
  case; the empty string stays empty. The two Unicode case tables are parameters of the
  model. \<open>ascii_casing\<close> is their restriction to ASCII, used where a concrete ASCII input
  is evaluated.
\<close>

record casing =
  to_title :: "codepoint \<Rightarrow> str"
  to_lower :: "str \<Rightarrow> str"

definition capitalize :: "casing \<Rightarrow> str \<Rightarrow> str" where
  "capitalize cs s = (case s of [] \<Rightarrow> [] | c # rest \<Rightarrow> to_title cs c @ to_lower cs rest)"

definition ascii_casing :: casing where
  "ascii_casing =
     \<lparr>to_title = (\<lambda>c. if 97 \<le> c \<and> c \<le> 122 then [c - 32] else [c]),
      to_lower = map (\<lambda>c. if 65 \<le> c \<and> c \<le> 90 then c + 32 else c)\<rparr>"

text \<open>\<^verbatim>\<open>s[0]\<close> raises IndexError on the empty string.\<close>

definition first_char :: "str \<Rightarrow> exception + codepoint" where
  "first_char s = (case s of [] \<Rightarrow> Inl IndexError | c # _ \<Rightarrow> Inr c)"

text \<open>The loop of \<^verbatim>\<open>firstnames_to_initials\<close>, with \<open>initials\<close> as its accumulator.\<close>

fun initials_loop :: "casing \<Rightarrow> str \<Rightarrow> str list \<Rightarrow> exception + str" where
  "initials_loop cs initials [] = Inr initials"
| "initials_loop cs initials (firstname # rest) =
     (case first_char (capitalize cs firstname) of
        Inl e \<Rightarrow> Inl e
      | Inr c \<Rightarrow> initials_loop cs (initials @ [c, 46]) rest)"

definition firstnames_to_initials :: "casing \<Rightarrow> str \<Rightarrow> exception + str" where
  "firstnames_to_initials cs firstnames =
     (case initials_loop cs [] (re_split_space firstnames) of
        Inl e \<Rightarrow> Inl e
      | Inr initials \<Rightarrow> Inr (strip initials))"

text \<open>
  \<^verbatim>\<open>latex_escape\<close>. The pattern \<^verbatim>\<open>(?<!\\)(?P<char>[&%\$#_{}])\<close> matches one reserved
  character whose predecessor in the scanned string is not a backslash, and the
  replacement is a backslash and the character. \<open>escape_reserved prev s\<close> scans \<open>s\<close>
  with \<open>prev\<close> the character before it, if any.
\<close>

definition is_reserved :: "codepoint \<Rightarrow> bool" where
  "is_reserved c = (c = 38 \<or> c = 37 \<or> c = 36 \<or> c = 35 \<or> c = 95 \<or> c = 123 \<or> c = 125)"

fun escape_reserved :: "codepoint option \<Rightarrow> str \<Rightarrow> str" where
  "escape_reserved prev [] = []"
| "escape_reserved prev (c # cs) =
     (if is_reserved c \<and> prev \<noteq> Some backslash
      then backslash # c # escape_reserved (Some c) cs
      else c # escape_reserved (Some c) cs)"

text \<open>\<^verbatim>\<open>re.sub(re.escape(ch), repl, s)\<close> for a single character \<open>ch\<close>, with the
  replacement template already expanded.\<close>

definition replace_char :: "codepoint \<Rightarrow> str \<Rightarrow> str \<Rightarrow> str" where
  "replace_char ch repl s = concat (map (\<lambda>c. if c = ch then repl else [c]) s)"

definition SPECIAL_LATEX_CHARS :: "(codepoint \<times> str) list" where
  "SPECIAL_LATEX_CHARS =
     [(tilde, ascii ''$'' @ [backslash] @ ascii ''textasciitilde$''),
      (caret, ascii ''$'' @ [backslash] @ ascii ''textasciicircum$'')]"

definition latex_escape :: "str \<Rightarrow> str" where
  "latex_escape string =
     fold (\<lambda>(special_char, repl) s. replace_char special_char repl s)
       SPECIAL_LATEX_CHARS (escape_reserved None string)"

text \<open>Line 188, \<^verbatim>\<open>re.sub('\s', '~', author.name)\<close>: the spec's nameForDisplay.\<close>

fun name_for_display :: "str \<Rightarrow> str" where
  "name_for_display [] = []"
| "name_for_display (c # cs) = (if is_space c then tilde else c) # name_for_display cs"

text \<open>The spec's words for nameForDisplay: every maximal run of whitespace becomes one
  marker. \<open>in_run\<close> says that the character before was whitespace.\<close>

fun spec_collapse_runs :: "bool \<Rightarrow> str \<Rightarrow> str" where
  "spec_collapse_runs in_run [] = []"
| "spec_collapse_runs in_run (c # cs) =
     (if is_space c then (if in_run then [] else [tilde]) @ spec_collapse_runs True cs
      else c # spec_collapse_runs False cs)"

definition spec_nameForDisplay :: "str \<Rightarrow> str" where
  "spec_nameForDisplay s = spec_collapse_runs False s"

section \<open>The script\<close>

definition EXIT_STATUS_SUCCESS :: int where
  "EXIT_STATUS_SUCCESS = 0"

definition EXIT_STATUS_OPTION_ERROR :: int where
  "EXIT_STATUS_OPTION_ERROR = 3"

definition EXIT_STATUS_FAILURE :: int where
  "EXIT_STATUS_FAILURE = 5"

definition AUTHOR_FILE_DEFAULT :: str where
  "AUTHOR_FILE_DEFAULT = ascii ''authors.csv''"

definition ARXIV_AUTHOR_FILE_DEFAULT :: str where
  "ARXIV_AUTHOR_FILE_DEFAULT = ascii ''hep-eppsu-software-authors.arxiv''"

definition LATEX_AUTHOR_FILE_DEFAULT :: str where
  "LATEX_AUTHOR_FILE_DEFAULT = ascii ''hep-eppsu-software-authors.tex''"

definition ARXIV_AUTHORS_PREFIX_DEFAULT :: str where
  "ARXIV_AUTHORS_PREFIX_DEFAULT = ascii ''HEP Software Foundation: ''"

definition AFFILIATION_USE_LETTERS :: bool where
  "AFFILIATION_USE_LETTERS = True"

text \<open>The namespace \<^verbatim>\<open>parse_args\<close> returns, and the one it returns for an empty
  command line.\<close>

record options =
  arxiv_output_file :: str
  arxiv_authors_prefix :: str
  authors :: str
  more_authors :: bool
  output_file :: str
  use_initials :: bool
  affiliation_letters :: bool
  affiliation_numbers :: bool

definition default_options :: options where
  "default_options =
     \<lparr>arxiv_output_file = ARXIV_AUTHOR_FILE_DEFAULT,
      arxiv_authors_prefix = ARXIV_AUTHORS_PREFIX_DEFAULT,
      authors = AUTHOR_FILE_DEFAULT,
      more_authors = False,
      output_file = LATEX_AUTHOR_FILE_DEFAULT,
      use_initials = False,
      affiliation_letters = AFFILIATION_USE_LETTERS,
      affiliation_numbers = (\<not> AFFILIATION_USE_LETTERS)\<rparr>"

text \<open>
  A row of the CSV file as \<^verbatim>\<open>csv.DictReader\<close> yields it, for a file with the four
  columns of the header comment. A row that stops before the ORCID column has
  \<^verbatim>\<open>None\<close> there.
\<close>

record row =
  Firstnames :: str
  Lastname :: str
  Affiliation :: str
  ORCID :: "str option"

record Author =
  name :: str
  affiliation_id :: "index option"
  orcid :: "str option"

text \<open>\<^verbatim>\<open>Author.__init__\<close>: \<^verbatim>\<open>if orcid:\<close> is false for \<^verbatim>\<open>None\<close> and for the empty
  string.\<close>

definition Author_init :: "str \<Rightarrow> index option \<Rightarrow> str option \<Rightarrow> Author" where
  "Author_init nm aff_id orc =
     \<lparr>name = nm, affiliation_id = aff_id,
      orcid = (case orc of None \<Rightarrow> None | Some s \<Rightarrow> (if s \<noteq> [] then Some s else None))\<rparr>"

text \<open>What an f-string writes for an affiliation index: the string itself, the decimal
  numeral of an integer, \<^verbatim>\<open>None\<close> for \<^verbatim>\<open>None\<close>.\<close>

fun digits :: "nat \<Rightarrow> str" where
  "digits n = (if n < 10 then [48 + n] else digits (n div 10) @ [48 + n mod 10])"

definition str_int :: "int \<Rightarrow> str" where
  "str_int i = (if i < 0 then 45 # digits (nat (- i)) else digits (nat i))"

definition format_id :: "index option \<Rightarrow> str" where
  "format_id v =
     (case v of None \<Rightarrow> ascii ''None'' | Some (Letters s) \<Rightarrow> s | Some (Number n) \<Rightarrow> str_int n)"

text \<open>Lines 167 to 169: look the affiliation up, add it when it is not there.\<close>

definition lookup_or_add ::
  "AffiliationList \<Rightarrow> str \<Rightarrow> exception + (AffiliationList \<times> index option)" where
  "lookup_or_add affiliation_list affiliation =
     (case get_id affiliation_list affiliation of
        Inl e \<Rightarrow> Inl e
      | Inr None \<Rightarrow>
          (case add affiliation_list affiliation of
             (al, Inl e) \<Rightarrow> Inl e
           | (al, Inr i) \<Rightarrow> Inr (al, i))
      | Inr (Some i) \<Rightarrow> Inr (affiliation_list, Some i))"

text \<open>Lines 170 to 173: the author's name.\<close>

definition author_name :: "casing \<Rightarrow> options \<Rightarrow> row \<Rightarrow> exception + str" where
  "author_name cs opts author =
     (if use_initials opts then
        (case firstnames_to_initials cs (Firstnames author) of
           Inl e \<Rightarrow> Inl e
         | Inr initials \<Rightarrow> Inr (initials @ ascii '' '' @ Lastname author))
      else Inr (Firstnames author @ ascii '' '' @ Lastname author))"

text \<open>The loop of lines 166 to 174 over the sorted rows.\<close>

fun process_rows ::
  "casing \<Rightarrow> options \<Rightarrow> AffiliationList \<Rightarrow> Author list \<Rightarrow> row list \<Rightarrow>
   exception + (AffiliationList \<times> Author list)" where
  "process_rows cs opts affiliation_list author_list [] = Inr (affiliation_list, author_list)"
| "process_rows cs opts affiliation_list author_list (author # rest) =
     (case lookup_or_add affiliation_list (Affiliation author) of
        Inl e \<Rightarrow> Inl e
      | Inr (al, aff_id) \<Rightarrow>
          (case author_name cs opts author of
             Inl e \<Rightarrow> Inl e
           | Inr nm \<Rightarrow>
               process_rows cs opts al (author_list @ [Author_init nm aff_id (ORCID author)]) rest))"

text \<open>Lines 177 to 179: the entry for authors still to come.\<close>

definition add_more_authors ::
  "AffiliationList \<Rightarrow> Author list \<Rightarrow> exception + (AffiliationList \<times> Author list)" where
  "add_more_authors affiliation_list author_list =
     (case add affiliation_list (ascii ''Many more to come...'') of
        (al, Inl e) \<Rightarrow> Inl e
      | (al, Inr _) \<Rightarrow>
          (case get_id al (ascii ''Many more to come...'') of
             Inl e \<Rightarrow> Inl e
           | Inr i \<Rightarrow>
               Inr (al, author_list @ [Author_init (ascii ''And many more to come...'') i None])))"

text \<open>Lines 159 to 179. \<^verbatim>\<open>sorted\<close> is stable and compares the last names code point
  by code point, as \<open>sort_key\<close> does on lists of numbers.\<close>

definition build_author_list ::
  "casing \<Rightarrow> options \<Rightarrow> row list \<Rightarrow> exception + (AffiliationList \<times> Author list)" where
  "build_author_list cs opts rows =
     (case process_rows cs opts (AffiliationList_init (\<not> affiliation_numbers opts)) []
             (sort_key Lastname rows) of
        Inl e \<Rightarrow> Inl e
      | Inr (al, author_list) \<Rightarrow>
          (if more_authors opts then add_more_authors al author_list
           else Inr (al, author_list)))"

text \<open>Lines 184 to 189: one author line of the LaTeX file.\<close>

definition orcid_link :: "Author \<Rightarrow> str" where
  "orcid_link author =
     (case orcid author of
        None \<Rightarrow> []
      | Some s \<Rightarrow> [backslash] @ ascii ''orcidlink{'' @ s @ ascii ''}'')"

definition author_line :: "Author \<Rightarrow> str" where
  "author_line author =
     [backslash] @ ascii ''author['' @ format_id (affiliation_id author) @ ascii '']{'' @
     name_for_display (name author) @ orcid_link author @ ascii ''}'' @ [10]"

text \<open>Lines 193 and 194: one line for each entry of the registry's list.\<close>

fun affiliation_lines :: "AffiliationList \<Rightarrow> str list \<Rightarrow> exception + str" where
  "affiliation_lines affiliation_list [] = Inr []"
| "affiliation_lines affiliation_list (affiliation # rest) =
     (case get_id affiliation_list affiliation of
        Inl e \<Rightarrow> Inl e
      | Inr i \<Rightarrow>
          (case affiliation_lines affiliation_list rest of
             Inl e \<Rightarrow> Inl e
           | Inr ls \<Rightarrow>
               Inr ([backslash] @ ascii ''affiliation['' @ format_id i @ ascii '']{'' @
                    affiliation @ ascii ''}'' @ [10] @ ls)))"

definition write_latex :: "AffiliationList \<Rightarrow> Author list \<Rightarrow> exception + str" where
  "write_latex affiliation_list author_list =
     (case affiliation_lines affiliation_list (reg_list affiliation_list) of
        Inl e \<Rightarrow> Inl e
      | Inr ls \<Rightarrow> Inr (concat (map author_line author_list) @ [10] @ ls))"

text \<open>Lines 197 to 199: the arXiv line, which \<^verbatim>\<open>print\<close> ends with a newline. The
  options are in scope there; the line is built from the constant.\<close>

fun join :: "str \<Rightarrow> str list \<Rightarrow> str" where
  "join sep [] = []"
| "join sep [x] = x"
| "join sep (x # y # ys) = x @ sep @ join sep (y # ys)"

definition write_arxiv :: "options \<Rightarrow> Author list \<Rightarrow> str" where
  "write_arxiv opts author_list =
     ARXIV_AUTHORS_PREFIX_DEFAULT @ join (ascii '', '') (map name author_list) @ [10]"

text \<open>
  Lines 159 to 199, from the parsed options and from what opening and reading the CSV
  file gave: the rows, or the exception raised. The result is the text written to each
  of the two output files by a run that raises nothing; the model does not describe
  what a run that raises has written when it stops.
\<close>

record outputs =
  latex_text :: str
  arxiv_text :: str

definition main_body :: "casing \<Rightarrow> options \<Rightarrow> exception + row list \<Rightarrow> exception + outputs" where
  "main_body cs opts csv_rows =
     (case csv_rows of
        Inl e \<Rightarrow> Inl e
      | Inr rows \<Rightarrow>
          (case build_author_list cs opts rows of
             Inl e \<Rightarrow> Inl e
           | Inr (al, author_list) \<Rightarrow>
               (case write_latex al author_list of
                  Inl e \<Rightarrow> Inl e
                | Inr tex \<Rightarrow>
                    Inr \<lparr>latex_text = tex, arxiv_text = write_arxiv opts author_list\<rparr>)))"

text \<open>
  What the \<^verbatim>\<open>try\<close> block of lines 138 to 153 can do: return the options, leave through
  \<^verbatim>\<open>SystemExit\<close> with the status \<^verbatim>\<open>argparse\<close> chose for a command line it refuses, or
  raise an exception.
\<close>

datatype parse_result = Parsed options | ParseExit int | ParseRaised exception

text \<open>
  How a call of \<^verbatim>\<open>main\<close> ends: it returns a value (\<^verbatim>\<open>None\<close> at the end of the body),
  an exception leaves it, or \<^verbatim>\<open>SystemExit\<close> leaves it. \<^verbatim>\<open>SystemExit\<close> is no
  \<^verbatim>\<open>Exception\<close>, so line 154 does not catch it. For an exception it does catch, line
  155 reads the attribute \<^verbatim>\<open>invalid_option_value\<close>, which an \<^verbatim>\<open>ArgumentParser\<close> does
  not have: AttributeError leaves \<^verbatim>\<open>main\<close> and line 156 is not reached.
\<close>

datatype outcome = Return "int option" | Raise exception | SystemExit int

definition main :: "casing \<Rightarrow> parse_result \<Rightarrow> exception + row list \<Rightarrow> outcome \<times> outputs option" where
  "main cs parsed csv_rows =
     (case parsed of
        ParseExit status \<Rightarrow> (SystemExit status, None)
      | ParseRaised e \<Rightarrow> (Raise AttributeError, None)
      | Parsed opts \<Rightarrow>
          (case main_body cs opts csv_rows of
             Inl e \<Rightarrow> (Raise e, None)
           | Inr out \<Rightarrow> (Return None, Some out)))"

text \<open>
  Lines 202 and 203 call \<^verbatim>\<open>main()\<close> and drop its value, so the interpreter ends with
  status 0 when \<^verbatim>\<open>main\<close> returns, whatever it returns, with status 1 after an
  uncaught exception, and with the status of a \<^verbatim>\<open>SystemExit\<close>.
\<close>

definition exit_status :: "outcome \<Rightarrow> int" where
  "exit_status r = (case r of Return v \<Rightarrow> 0 | Raise e \<Rightarrow> 1 | SystemExit status \<Rightarrow> status)"

text \<open>Sample data: a registry whose entries are the \<open>n\<close> one-character strings with
  code points below \<open>n\<close>.\<close>

definition sample_registry :: "nat \<Rightarrow> bool \<Rightarrow> AffiliationList" where
  "sample_registry n index_letter =
     \<lparr>reg_list = map (\<lambda>k. [k]) [0..<n], reg_index_letter = index_letter\<rparr>"

text \<open>Sample data: two rows, given out of the order of their last names.\<close>

definition sample_rows :: "row list" where
  "sample_rows =
     [\<lparr>Firstnames = ascii ''Zoe'', Lastname = ascii ''Zed'', Affiliation = ascii ''CERN'',
       ORCID = None\<rparr>,
      \<lparr>Firstnames = ascii ''Al'', Lastname = ascii ''Abe'', Affiliation = ascii ''LAL'',
       ORCID = None\<rparr>]"

text \<open>Every reserved character of a string has a backslash before it, where \<open>prev\<close>
  is the character before the string, if any.\<close>

fun well_escaped :: "codepoint option \<Rightarrow> str \<Rightarrow> bool" where
  "well_escaped prev [] = True"
| "well_escaped prev (c # cs) =
     ((if is_reserved c then prev = Some backslash else True) \<and> well_escaped (Some c) cs)"

section \<open>Facts about the registry\<close>

lemma list_index_Inl_iff: "list_index xs a = Inl e \<longleftrightarrow> e = ValueError \<and> a \<notin> set xs"
  by (induction xs) (auto split: sum.splits)

lemma list_index_first: "a \<notin> set ps \<Longrightarrow> list_index (ps @ a # ss) a = Inr (length ps)"
  by (induction ps) auto

lemma list_index_Inr_iff:
  "list_index xs a = Inr p \<longleftrightarrow> p < length xs \<and> xs ! p = a \<and> a \<notin> set (take p xs)"
proof
  assume "list_index xs a = Inr p"
  then show "p < length xs \<and> xs ! p = a \<and> a \<notin> set (take p xs)"
  proof (induction xs arbitrary: p)
    case Nil
    then show ?case by simp
  next
    case (Cons x xs)
    show ?case
    proof (cases "x = a")
      case True
      with Cons.prems show ?thesis by simp
    next
      case False
      with Cons.prems obtain q where q: "list_index xs a = Inr q" "p = Suc q"
        by (auto split: sum.splits)
      from Cons.IH [OF q(1)] q(2) False show ?thesis by simp
    qed
  qed
next
  assume h: "p < length xs \<and> xs ! p = a \<and> a \<notin> set (take p xs)"
  then have "xs = take p xs @ a # drop (Suc p) xs"
    by (metis id_take_nth_drop)
  then have "list_index xs a = list_index (take p xs @ a # drop (Suc p) xs) a"
    by simp
  also have "\<dots> = Inr (length (take p xs))"
    using h by (intro list_index_first) simp
  finally show "list_index xs a = Inr p"
    using h by simp
qed

lemma list_index_append_mem: "a \<in> set xs \<Longrightarrow> list_index (xs @ ys) a = list_index xs a"
  by (induction xs) auto

lemma list_index_append_new: "a \<notin> set xs \<Longrightarrow> list_index (xs @ a # ys) a = Inr (length xs)"
  by (rule list_index_first)

lemma reg_list_add: "reg_list (fst (add r a)) = reg_list r @ [a]"
  by (simp add: add_def Let_def)

lemma reg_index_letter_add: "reg_index_letter (fst (add r a)) = reg_index_letter r"
  by (simp add: add_def Let_def)

lemma reg_list_adds: "reg_list (adds r xs) = reg_list r @ xs"
  by (induction xs arbitrary: r) (simp_all add: reg_list_add)

lemma reg_index_letter_adds: "reg_index_letter (adds r xs) = reg_index_letter r"
  by (induction xs arbitrary: r) (simp_all add: reg_index_letter_add)

lemma list_index_Inr_mem: "list_index xs a = Inr p \<Longrightarrow> a \<in> set xs"
  by (metis list_index_Inr_iff nth_mem)

lemma get_id_None_iff: "get_id r a = Inr None \<longleftrightarrow> a \<notin> set (reg_list r)"
  by (auto simp: get_id_def list_index_Inl_iff split: sum.splits dest: list_index_Inr_mem)

lemma get_id_append_mem:
  "a \<in> set (reg_list r) \<Longrightarrow> get_id (r\<lparr>reg_list := reg_list r @ ys\<rparr>) a = get_id r a"
  by (simp add: get_id_def list_index_append_mem split: sum.splits)

lemma get_id_adds_mem:
  "a \<in> set (reg_list r) \<Longrightarrow> get_id (adds r ys) a = get_id r a"
  by (simp add: get_id_def list_index_append_mem reg_list_adds reg_index_letter_adds split: sum.splits)

lemma index_of_position_letters_small:
  "p < 26 \<Longrightarrow> index_of_position True p = Inr (Letters [spec_letter p])"
  by (simp add: index_of_position_def chr_def ord_def spec_letter_def)

lemma index_of_position_letters_two:
  assumes "26 \<le> p" "p < 702"
  shows "index_of_position True p = Inr (Letters [spec_letter (p div 26 - 1), spec_letter (p mod 26)])"
proof -
  have a: "0 < int p div 26" using assms by simp
  have b: "int p div 26 < 27" using assms by simp
  have c: "nat (97 + int p div 26 - 1) = 97 + (p div 26 - 1)"
    using assms by (simp add: nat_add_distrib nat_diff_distrib' zdiv_int)
  have "int p mod 26 = int (p mod 26)" by (simp add: zmod_int)
  then have d: "nat (97 + int p mod 26) = 97 + p mod 26"
   by (simp add: nat_add_distrib)
  have e: "0 \<le> int p mod 26" "int p mod 26 < 26" by simp_all
  show ?thesis
    using a b c d e
    by (simp add: index_of_position_def chr_def ord_def spec_letter_def Let_def)
qed

lemma spec_bijective_base26_two:
  "26 \<le> p \<Longrightarrow> p < 702 \<Longrightarrow> spec_bijective_base26 p = [spec_letter (p div 26 - 1), spec_letter (p mod 26)]"
proof -
  assume "26 \<le> p" "p < 702"
  then have "p div 26 - 1 < 26" by simp
  then have "spec_bijective_base26 (p div 26 - 1) = [spec_letter (p div 26 - 1)]"
    by (subst spec_bijective_base26.simps) simp
  with \<open>26 \<le> p\<close> show ?thesis
    by (subst spec_bijective_base26.simps) simp
qed


lemma chr_Inr: "0 \<le> i \<Longrightarrow> i < 1114112 \<Longrightarrow> chr i = Inr [nat i]"
  by (simp add: chr_def)

lemma index_of_position_returns:
  assumes "\<not> b \<or> p < 28964416"
  shows "\<exists>i. index_of_position b p = Inr i"
proof (cases b)
  case False
  then show ?thesis by (simp add: index_of_position_def)
next
  case True
  with assms have "int p div 26 < 1114016" by simp
  then have h: "chr (ord 97 + int p div 26 - 1) = Inr [nat (ord 97 + int p div 26 - 1)]"
    if "0 < int p div 26"
    using that by (intro chr_Inr) (simp_all add: ord_def)
  have "0 \<le> int p mod 26" "int p mod 26 < 26" by simp_all
  then have l: "chr (ord 97 + int p mod 26) = Inr [nat (ord 97 + int p mod 26)]"
    by (intro chr_Inr) (simp_all add: ord_def)
  show ?thesis
  proof (cases "0 < int p div 26")
    case True
    with h l \<open>b\<close> show ?thesis
      by (simp add: index_of_position_def Let_def)
  next
    case False
    with l \<open>b\<close> show ?thesis
      by (simp add: index_of_position_def Let_def)
  qed
qed

section \<open>Claim C1\<close>

lemma get_id_at_position:
  assumes "p < length (reg_list r)" "reg_list r ! p \<notin> set (take p (reg_list r))"
  shows "get_id r (reg_list r ! p) =
    (case index_of_position (reg_index_letter r) p of Inl e \<Rightarrow> Inl e | Inr i \<Rightarrow> Inr (Some i))"
proof -
  have "list_index (reg_list r) (reg_list r ! p) = Inr p"
    using assms by (simp add: list_index_Inr_iff)
  then show ?thesis by (simp add: get_id_def)
qed

lemma sample_registry_first:
  "p < n \<Longrightarrow> p < length (reg_list (sample_registry n b)) \<and>
     reg_list (sample_registry n b) ! p = [p] \<and>
     reg_list (sample_registry n b) ! p \<notin> set (take p (reg_list (sample_registry n b)))"
  by (auto simp: sample_registry_def take_map)

lemma letter_examples:
  "map (index_of_position True) ([0..<28] @ [51, 52]) =
   map (\<lambda>s. Inr (Letters (ascii s)))
     [''a'', ''b'', ''c'', ''d'', ''e'', ''f'', ''g'', ''h'', ''i'', ''j'', ''k'', ''l'', ''m'',
      ''n'', ''o'', ''p'', ''q'', ''r'', ''s'', ''t'', ''u'', ''v'', ''w'', ''x'', ''y'', ''z'',
      ''aa'', ''ab'', ''az'', ''ba'']"
  by code_simp

text \<open>
  Claim C1, as amended. In letter mode, an affiliation whose first occurrence is at the
  zero-based position \<open>p\<close> of the registry, with \<open>p\<close> below 702, gets the bijective
  base-26 numeral of \<open>p\<close> as its index: the single letter for \<open>p\<close> up to 25, and from
  26 on the letter for \<open>p div 26 - 1\<close> followed by the letter for \<open>p mod 26\<close>, all of
  them letters from a to z. Positions 0 to 27 give a, b, ..., z, aa, ab, position 51
  gives az and position 52 gives ba. Nothing is said of positions from 702 on.
\<close>

theorem letter_index_below_702:
  assumes "reg_index_letter r" and "p < length (reg_list r)"
    and "reg_list r ! p \<notin> set (take p (reg_list r))" and "p < 702"
  shows "get_id r (reg_list r ! p) = Inr (Some (Letters (spec_bijective_base26 p))) \<and>
         spec_bijective_base26 p =
           (if p \<le> 25 then [spec_letter p]
            else [spec_letter (p div 26 - 1), spec_letter (p mod 26)]) \<and>
         list_all is_lower_letter (spec_bijective_base26 p) \<and>
         map (index_of_position True) ([0..<28] @ [51, 52]) =
           map (\<lambda>s. Inr (Letters (ascii s)))
             [''a'', ''b'', ''c'', ''d'', ''e'', ''f'', ''g'', ''h'', ''i'', ''j'', ''k'', ''l'',
              ''m'', ''n'', ''o'', ''p'', ''q'', ''r'', ''s'', ''t'', ''u'', ''v'', ''w'', ''x'',
              ''y'', ''z'', ''aa'', ''ab'', ''az'', ''ba'']"
proof (cases "p < 26")
  case True
  have "get_id r (reg_list r ! p) = Inr (Some (Letters [spec_letter p]))"
    using assms True by (simp add: get_id_at_position index_of_position_letters_small)
  moreover have "is_lower_letter (spec_letter p)"
    using True by (simp add: is_lower_letter_def spec_letter_def)
  ultimately show ?thesis
    using True letter_examples by simp
next
  case False
  then have p: "26 \<le> p" by simp
  have "get_id r (reg_list r ! p) =
      Inr (Some (Letters [spec_letter (p div 26 - 1), spec_letter (p mod 26)]))"
    using assms p by (simp add: get_id_at_position index_of_position_letters_two)
  moreover have "p div 26 - 1 \<le> 25" using \<open>p < 702\<close> by simp
  then have "is_lower_letter (spec_letter (p div 26 - 1))"
    by (simp add: is_lower_letter_def spec_letter_def)
  moreover have "is_lower_letter (spec_letter (p mod 26))"
    by (simp add: is_lower_letter_def spec_letter_def)
  ultimately show ?thesis
    using p \<open>p < 702\<close> letter_examples spec_bijective_base26_two [of p]
    by (simp del: spec_bijective_base26.simps)
qed

text \<open>The theorem at position 52 of a registry of 53 entries.\<close>

theorem letter_index_below_702_witness:
  "get_id (sample_registry 53 True) [52] = Inr (Some (Letters (ascii ''ba'')))"
proof -
  have "(52::nat) < 53" by simp
  note h0 = sample_registry_first [OF this, of True]
  have h: "52 < length (reg_list (sample_registry 53 True))"
    "reg_list (sample_registry 53 True) ! 52 = [52]"
    "reg_list (sample_registry 53 True) ! 52 \<notin> set (take 52 (reg_list (sample_registry 53 True)))"
    using h0 by blast+
  have l: "reg_index_letter (sample_registry 53 True)"
    by (simp add: sample_registry_def)
  have "(52::nat) < 702" by simp
  from letter_index_below_702 [OF l h(1) h(3) this]
  have "get_id (sample_registry 53 True) [52] = Inr (Some (Letters (spec_bijective_base26 52)))"
    using h(2) by simp
  moreover have "spec_bijective_base26 52 = ascii ''ba''"
    by (simp add: ascii_def spec_letter_def)
  ultimately show ?thesis by simp
qed

text \<open>
  Claim C1 as first stated covers every position. At position 702 the first character
  of the index is \<^verbatim>\<open>chr(ord('a') + 26)\<close>, an opening brace and no letter, where the
  bijective base-26 numeral is aaa.
\<close>

theorem letter_index_702_counterexample:
  "get_id (sample_registry 703 True) [702] = Inr (Some (Letters (ascii ''{a''))) \<and>
   spec_bijective_base26 702 = ascii ''aaa'' \<and>
   \<not> list_all is_lower_letter (ascii ''{a'')"
proof -
  have "(702::nat) < 703" by simp
  note h0 = sample_registry_first [OF this, of True]
  have h: "702 < length (reg_list (sample_registry 703 True))"
    "reg_list (sample_registry 703 True) ! 702 = [702]"
    "reg_list (sample_registry 703 True) ! 702 \<notin> set (take 702 (reg_list (sample_registry 703 True)))"
    using h0 by blast+
  have l: "reg_index_letter (sample_registry 703 True)"
    by (simp add: sample_registry_def)
  have "index_of_position True 702 = Inr (Letters (ascii ''{a''))"
    by (simp add: index_of_position_def chr_def ord_def ascii_def)
  with get_id_at_position [OF h(1) h(3)] h(2) l
  have "get_id (sample_registry 703 True) [702] = Inr (Some (Letters (ascii ''{a'')))"
    by simp
  moreover have "spec_bijective_base26 702 = ascii ''aaa''"
    by (simp add: ascii_def spec_letter_def)
  moreover have "\<not> list_all is_lower_letter (ascii ''{a'')"
    by (simp add: ascii_def is_lower_letter_def)
  ultimately show ?thesis by simp
qed

section \<open>Claim C2\<close>

text \<open>
  Claim C2. On a registry that started empty and has seen \<^verbatim>\<open>add\<close> called with the
  strings \<open>xs\<close>, in either mode, \<^verbatim>\<open>get_id\<close> returns \<^verbatim>\<open>None\<close> for \<open>a\<close> exactly when
  \<open>a\<close> is not among \<open>xs\<close>; and once \<open>a\<close> is among them, \<^verbatim>\<open>get_id\<close> gives for \<open>a\<close>
  the same result after any further calls of \<^verbatim>\<open>add\<close> as before them. (The same result
  includes the ValueError that \<^verbatim>\<open>chr\<close> raises in letter mode for a position of
  28964416 or more, which is then raised on every call; in number mode, and in letter
  mode on a registry of at most 28964416 entries, the result for an added string is an
  index.)
\<close>

theorem get_id_absent_until_added_then_stable:
  "(get_id (adds (AffiliationList_init b) xs) a = Inr None \<longleftrightarrow> a \<notin> set xs) \<and>
   (a \<in> set xs \<longrightarrow>
      get_id (adds (adds (AffiliationList_init b) xs) ys) a =
      get_id (adds (AffiliationList_init b) xs) a) \<and>
   (a \<in> set xs \<and> (b \<longrightarrow> length xs \<le> 28964416) \<longrightarrow>
      (\<exists>i. get_id (adds (AffiliationList_init b) xs) a = Inr (Some i)))"
proof -
  have l: "reg_list (adds (AffiliationList_init b) xs) = xs"
    by (simp add: reg_list_adds AffiliationList_init_def)
  have m: "reg_index_letter (adds (AffiliationList_init b) xs) = b"
    by (simp add: reg_index_letter_adds AffiliationList_init_def)
  have "\<exists>i. get_id (adds (AffiliationList_init b) xs) a = Inr (Some i)"
    if "a \<in> set xs" "b \<longrightarrow> length xs \<le> 28964416"
  proof -
    from that(1) obtain p where p: "list_index xs a = Inr p"
      by (cases "list_index xs a") (auto simp: list_index_Inl_iff)
    then have "p < length xs" by (simp add: list_index_Inr_iff)
    with that(2) have "\<not> b \<or> p < 28964416" by auto
    then obtain i where "index_of_position b p = Inr i"
      using index_of_position_returns by blast
    with p l m show ?thesis by (simp add: get_id_def)
  qed
  with l show ?thesis
    by (simp add: get_id_None_iff get_id_adds_mem)
qed

text \<open>The theorem on a registry with two entries, before and after a third is added.\<close>

theorem get_id_absent_until_added_then_stable_witness:
  "get_id (adds (AffiliationList_init True) [ascii ''CERN'', ascii ''LAL'']) (ascii ''DESY'') = Inr None \<and>
   get_id (adds (AffiliationList_init True) [ascii ''CERN'', ascii ''LAL'']) (ascii ''LAL'')
     = Inr (Some (Letters (ascii ''b''))) \<and>
   get_id (adds (adds (AffiliationList_init True) [ascii ''CERN'', ascii ''LAL'']) [ascii ''DESY''])
      (ascii ''LAL'') = Inr (Some (Letters (ascii ''b'')))"
proof -
  have m: "ascii ''LAL'' \<in> set [ascii ''CERN'', ascii ''LAL'']" by simp
  have n: "ascii ''DESY'' \<notin> set [ascii ''CERN'', ascii ''LAL'']" by (simp add: ascii_def)
  have v: "get_id (adds (AffiliationList_init True) [ascii ''CERN'', ascii ''LAL'']) (ascii ''LAL'')
     = Inr (Some (Letters (ascii ''b'')))"
    by (simp add: AffiliationList_init_def add_def get_id_def index_of_position_def chr_def
        ord_def ascii_def)
  show ?thesis
    using get_id_absent_until_added_then_stable
      [of True "[ascii ''CERN'', ascii ''LAL'']" "ascii ''DESY''" "[]"]
      get_id_absent_until_added_then_stable
      [of True "[ascii ''CERN'', ascii ''LAL'']" "ascii ''LAL''" "[ascii ''DESY'']"]
      m n v
    by simp
qed

section \<open>Claim C3\<close>

text \<open>
  Claim C3, as amended. \<^verbatim>\<open>add\<close> appends the string as the last entry without looking
  for it first, and leaves the mode as it is. It returns the index of the first
  occurrence of the string in the extended list: the index of the position of the new
  entry when the string was not in the list before, and what \<^verbatim>\<open>get_id\<close> gave for the
  string before the call when it was.
\<close>

theorem add_appends_and_returns_first_occurrence:
  "reg_list (fst (add r a)) = reg_list r @ [a] \<and>
   reg_index_letter (fst (add r a)) = reg_index_letter r \<and>
   (a \<notin> set (reg_list r) \<longrightarrow>
      snd (add r a) =
        (case index_of_position (reg_index_letter r) (length (reg_list r)) of
           Inl e \<Rightarrow> Inl e | Inr i \<Rightarrow> Inr (Some i))) \<and>
   (a \<in> set (reg_list r) \<longrightarrow> snd (add r a) = get_id r a)"
  by (simp add: add_def Let_def get_id_def list_index_append_mem list_index_append_new
      split: sum.splits)

text \<open>The theorem for a string that is new to the registry and for one that is not.\<close>

theorem add_appends_and_returns_first_occurrence_witness:
  "snd (add (AffiliationList_init True) (ascii ''CERN'')) = Inr (Some (Letters (ascii ''a''))) \<and>
   snd (add \<lparr>reg_list = [ascii ''CERN'', ascii ''LAL''], reg_index_letter = False\<rparr> (ascii ''CERN''))
     = Inr (Some (Number 1))"
proof -
  have a: "ascii ''CERN'' \<notin> set (reg_list (AffiliationList_init True))"
    by (simp add: AffiliationList_init_def)
  have b: "ascii ''CERN'' \<in> set (reg_list \<lparr>reg_list = [ascii ''CERN'', ascii ''LAL''], reg_index_letter = False\<rparr>)"
    by simp
  show ?thesis
    using add_appends_and_returns_first_occurrence [of "AffiliationList_init True" "ascii ''CERN''"]
      add_appends_and_returns_first_occurrence
        [of "\<lparr>reg_list = [ascii ''CERN'', ascii ''LAL''], reg_index_letter = False\<rparr>" "ascii ''CERN''"]
      a b
    by (simp add: AffiliationList_init_def get_id_def index_of_position_def chr_def ord_def ascii_def)
qed

text \<open>
  Claim C3 as first stated has \<^verbatim>\<open>add\<close> return the index of the entry it appended.
  Adding a string the list already holds at position 0 appends it at position 1 and
  returns a, the index of position 0, where position 1 has the index b.
\<close>

theorem add_duplicate_counterexample:
  "reg_list (fst (add \<lparr>reg_list = [ascii ''CERN''], reg_index_letter = True\<rparr> (ascii ''CERN'')))
     = [ascii ''CERN'', ascii ''CERN''] \<and>
   snd (add \<lparr>reg_list = [ascii ''CERN''], reg_index_letter = True\<rparr> (ascii ''CERN''))
     = Inr (Some (Letters (ascii ''a''))) \<and>
   index_of_position True 1 = Inr (Letters (ascii ''b''))"
  by (simp add: add_def get_id_def index_of_position_def chr_def ord_def ascii_def)

section \<open>Claim C4\<close>

text \<open>
  Claim C4 says that \<^verbatim>\<open>firstnames_to_initials\<close> returns for every string. On the
  spec's own example with spaces around the name, on the empty string, on a single
  space and on two names with two spaces between them, \<^verbatim>\<open>re.split\<close> yields an empty
  token, whose capitalized form has no first character: IndexError is raised, whatever
  the case tables are. With single spaces between names and none around them the
  initials come out.
\<close>

theorem firstnames_to_initials_raises:
  "firstnames_to_initials cs (ascii ''  mary  '') = Inl IndexError \<and>
   firstnames_to_initials cs (ascii '''') = Inl IndexError \<and>
   firstnames_to_initials cs (ascii '' '') = Inl IndexError \<and>
   firstnames_to_initials ascii_casing (ascii ''jean  paul'') = Inl IndexError \<and>
   firstnames_to_initials ascii_casing (ascii ''jean paul'') = Inr (ascii ''J.P.'')"
  by (simp add: firstnames_to_initials_def re_split_space_def ascii_def is_space_def
      capitalize_def first_char_def ascii_casing_def strip_def)

section \<open>Claim C5\<close>

lemma backslash_not_reserved: "\<not> is_reserved backslash"
  by (simp add: is_reserved_def backslash_def)

lemma well_escaped_escape_reserved: "well_escaped prev (escape_reserved prev s)"
  by (induction s arbitrary: prev) (simp_all add: backslash_not_reserved)

lemma escape_reserved_fixed: "well_escaped prev s \<Longrightarrow> escape_reserved prev s = s"
  by (induction s arbitrary: prev) (auto split: if_splits)

lemma escape_reserved_idem: "escape_reserved prev (escape_reserved prev s) = escape_reserved prev s"
  by (simp add: escape_reserved_fixed well_escaped_escape_reserved)

lemma well_escaped_nth:
  "well_escaped prev s \<Longrightarrow> i < length s \<Longrightarrow> is_reserved (s ! i) \<Longrightarrow>
     (if i = 0 then prev = Some backslash else s ! (i - 1) = backslash)"
proof (induction s arbitrary: prev i)
  case Nil
  then show ?case by simp
next
  case (Cons c cs)
  show ?case
  proof (cases i)
    case 0
    with Cons.prems show ?thesis by (simp split: if_splits)
  next
    case (Suc j)
    with Cons.prems have "well_escaped (Some c) cs" "j < length cs" "is_reserved (cs ! j)"
      by simp_all
    from Cons.IH [OF this] Suc show ?thesis
      by (cases j) simp_all
  qed
qed

lemma set_escape_reserved: "set (escape_reserved prev s) \<subseteq> insert backslash (set s)"
  by (induction s arbitrary: prev) auto

lemma replace_char_absent: "ch \<notin> set s \<Longrightarrow> replace_char ch repl s = s"
  by (induction s) (auto simp: replace_char_def)

lemma latex_escape_plain:
  assumes "tilde \<notin> set s" "caret \<notin> set s"
  shows "latex_escape s = escape_reserved None s"
proof -
  have "tilde \<notin> set (escape_reserved None s)" "caret \<notin> set (escape_reserved None s)"
    using assms set_escape_reserved [of None s]
    by (auto simp: tilde_def caret_def backslash_def)
  then show ?thesis
    by (simp add: latex_escape_def SPECIAL_LATEX_CHARS_def replace_char_absent)
qed

text \<open>
  Claim C5. On a string with no tilde and no caret, \<^verbatim>\<open>latex_escape\<close> applied twice
  gives what it gives applied once; and in its result every one of the characters
  \<^verbatim>\<open>& % $ # _ { }\<close> stands after a backslash, so the second pass has nothing to escape.
\<close>

theorem latex_escape_twice:
  assumes "tilde \<notin> set s" and "caret \<notin> set s"
  shows "latex_escape (latex_escape s) = latex_escape s \<and>
         (\<forall>i < length (latex_escape s). is_reserved (latex_escape s ! i) \<longrightarrow>
            0 < i \<and> latex_escape s ! (i - 1) = backslash)"
proof -
  have e: "latex_escape s = escape_reserved None s"
    using assms by (rule latex_escape_plain)
  have "tilde \<notin> set (escape_reserved None s)" "caret \<notin> set (escape_reserved None s)"
    using assms set_escape_reserved [of None s]
    by (auto simp: tilde_def caret_def backslash_def)
  then have "latex_escape (escape_reserved None s) = escape_reserved None (escape_reserved None s)"
    by (rule latex_escape_plain)
  then have idem: "latex_escape (latex_escape s) = latex_escape s"
    by (simp add: e escape_reserved_idem)
  have "0 < i \<and> escape_reserved None s ! (i - 1) = backslash"
    if "i < length (escape_reserved None s)" "is_reserved (escape_reserved None s ! i)" for i
    using well_escaped_nth [OF well_escaped_escape_reserved that]
    by (cases "i = 0") simp_all
  with idem e show ?thesis by simp
qed

text \<open>The theorem on the spec's example string.\<close>

theorem latex_escape_twice_witness:
  "latex_escape (ascii ''50% & #1_{x}'')
     = ascii ''50'' @ [backslash] @ ascii ''% '' @ [backslash] @ ascii ''& '' @ [backslash] @
       ascii ''#1'' @ [backslash] @ ascii ''_'' @ [backslash] @ ascii ''{x'' @ [backslash] @ ascii ''}'' \<and>
   latex_escape (latex_escape (ascii ''50% & #1_{x}'')) = latex_escape (ascii ''50% & #1_{x}'')"
proof -
  have t: "tilde \<notin> set (ascii ''50% & #1_{x}'')" and c: "caret \<notin> set (ascii ''50% & #1_{x}'')"
    by (simp_all add: ascii_def tilde_def caret_def)
  have v: "latex_escape (ascii ''50% & #1_{x}'')
     = ascii ''50'' @ [backslash] @ ascii ''% '' @ [backslash] @ ascii ''& '' @ [backslash] @
       ascii ''#1'' @ [backslash] @ ascii ''_'' @ [backslash] @ ascii ''{x'' @ [backslash] @ ascii ''}''"
    by (simp add: latex_escape_def SPECIAL_LATEX_CHARS_def replace_char_def ascii_def
        is_reserved_def backslash_def tilde_def caret_def)
  from latex_escape_twice [OF t c] v show ?thesis by simp
qed

section \<open>Claim C6\<close>

lemma length_name_for_display: "length (name_for_display s) = length s"
  by (induction s) simp_all

lemma name_for_display_nth:
  "i < length s \<Longrightarrow> name_for_display s ! i = (if is_space (s ! i) then tilde else s ! i)"
proof (induction s arbitrary: i)
  case Nil
  then show ?case by simp
next
  case (Cons c cs)
  then show ?case by (cases i) simp_all
qed

lemma name_for_display_append:
  "name_for_display (xs @ ys) = name_for_display xs @ name_for_display ys"
  by (induction xs) simp_all

lemma name_for_display_run:
  "is_space c \<Longrightarrow> name_for_display (replicate n c) = replicate n tilde"
  by (induction n) simp_all

text \<open>
  Claim C6, as amended. The pass over the name replaces each whitespace character by one
  tilde and copies every other character: the result has the length of the name, its
  character at each position is the tilde where the name has whitespace and the name's
  character elsewhere, and a run of \<open>n\<close> equal whitespace characters becomes \<open>n\<close>
  tildes.
\<close>

theorem name_for_display_each_character:
  "length (name_for_display s) = length s \<and>
   (\<forall>i < length s. name_for_display s ! i = (if is_space (s ! i) then tilde else s ! i)) \<and>
   (is_space c \<longrightarrow>
      name_for_display (xs @ replicate n c @ ys) =
      name_for_display xs @ replicate n tilde @ name_for_display ys)"
  by (simp add: length_name_for_display name_for_display_nth name_for_display_append
      name_for_display_run)

text \<open>The theorem on a name with a run of three spaces, and at the space of a name
  with one.\<close>

theorem name_for_display_each_character_witness:
  "name_for_display (ascii ''Jane'' @ replicate 3 32 @ ascii ''Doe'') = ascii ''Jane~~~Doe'' \<and>
   name_for_display (ascii ''Jane Doe'') ! 4 = tilde"
proof -
  have s: "is_space 32" by (simp add: is_space_def)
  have i: "(4::nat) < length (ascii ''Jane Doe'')" by (simp add: ascii_def)
  have r: "replicate 3 tilde = ascii ''~~~''"
    by (simp add: ascii_def tilde_def eval_nat_numeral)
  have n: "name_for_display (ascii ''Jane'') = ascii ''Jane''" "name_for_display (ascii ''Doe'') = ascii ''Doe''"
    by (simp_all add: ascii_def is_space_def)
  have "name_for_display (ascii ''Jane'' @ replicate 3 32 @ ascii ''Doe'')
      = ascii ''Jane'' @ ascii ''~~~'' @ ascii ''Doe''"
    using name_for_display_each_character [of "ascii ''Jane Doe''" 32 "ascii ''Jane''" 3 "ascii ''Doe''"] s
    by (simp only: r n)
  moreover have "name_for_display (ascii ''Jane Doe'') ! 4 = tilde"
    using name_for_display_each_character [of "ascii ''Jane Doe''" 32 "ascii ''Jane''" 3 "ascii ''Doe''"] i
    by (simp add: ascii_def is_space_def)
  ultimately show ?thesis
    by (simp add: ascii_def)
qed

text \<open>
  Claim C6 as first stated has one tilde for a whole run. A name with two spaces between
  its words gets two tildes, in the name and in the author line, where the spec's
  nameForDisplay gives one.
\<close>

theorem name_for_display_run_counterexample:
  "name_for_display (ascii ''Jane  Doe'') = ascii ''Jane~~Doe'' \<and>
   spec_nameForDisplay (ascii ''Jane  Doe'') = ascii ''Jane~Doe'' \<and>
   author_line (Author_init (ascii ''Jane  Doe'') (Some (Letters (ascii ''a''))) None)
     = [backslash] @ ascii ''author[a]{Jane~~Doe}'' @ [10]"
  by (simp add: spec_nameForDisplay_def author_line_def Author_init_def orcid_link_def
      format_id_def ascii_def is_space_def tilde_def)

section \<open>Claim C7\<close>

lemma name_Author_init: "name (Author_init nm i orc) = nm"
  by (simp add: Author_init_def)

lemma process_rows_names:
  "process_rows cs opts al acc rows = Inr (al', author_list) \<Longrightarrow>
     map (\<lambda>a. Inr (name a)) author_list =
     map (\<lambda>a. Inr (name a)) acc @ map (author_name cs opts) rows"
proof (induction rows arbitrary: al acc)
  case Nil
  then show ?case by simp
next
  case (Cons author rest)
  from Cons.prems obtain al1 i nm where
    l: "lookup_or_add al (Affiliation author) = Inr (al1, i)" and
    n: "author_name cs opts author = Inr nm" and
    r: "process_rows cs opts al1 (acc @ [Author_init nm i (ORCID author)]) rest = Inr (al', author_list)"
    by (auto split: sum.splits prod.splits)
  from Cons.IH [OF r] n show ?case
    by (simp add: name_Author_init)
qed

lemma add_more_authors_names:
  "add_more_authors al acc = Inr (al', author_list) \<Longrightarrow>
     map (\<lambda>a. Inr (name a)) author_list =
     map (\<lambda>a. Inr (name a)) acc @ [Inr (ascii ''And many more to come...'') :: exception + str]"
  by (auto simp: add_more_authors_def name_Author_init split: sum.splits prod.splits)

lemma build_author_list_names:
  assumes "build_author_list cs opts rows = Inr (al, author_list)"
  shows "map (\<lambda>a. Inr (name a)) author_list =
     map (author_name cs opts) (sort_key Lastname rows) @
     (if more_authors opts then [Inr (ascii ''And many more to come...'')] else [])"
proof -
  from assms obtain al1 l1 where
    p: "process_rows cs opts (AffiliationList_init (\<not> affiliation_numbers opts)) []
          (sort_key Lastname rows) = Inr (al1, l1)" and
    m: "(if more_authors opts then add_more_authors al1 l1 else Inr (al1, l1)) = Inr (al, author_list)"
    by (auto simp: build_author_list_def split: sum.splits prod.splits)
  from process_rows_names [OF p]
  have a: "map (\<lambda>a. Inr (name a)) l1 = map (author_name cs opts) (sort_key Lastname rows)"
    by simp
  show ?thesis
  proof (cases "more_authors opts")
    case True
    with m have "add_more_authors al1 l1 = Inr (al, author_list)" by simp
    from add_more_authors_names [OF this] a True show ?thesis by simp
  next
    case False
    with m a show ?thesis by simp
  qed
qed

lemma name_for_display_map: "name_for_display s = map (\<lambda>c. if is_space c then tilde else c) s"
  by (induction s) simp_all

text \<open>
  Claim C7, as amended. In a run that raises nothing, the authors are in the order of the
  rows sorted by last name (followed by the entry for more authors when that is asked
  for), each with the name built from its row; and the LaTeX file starts with one
  author line per author in that order, in which the name is the author's name with
  each whitespace character replaced by a tilde and every other character, the
  characters LaTeX reserves among them, as it is. \<^verbatim>\<open>latex_escape\<close> is not applied.
\<close>

theorem author_line_name_not_escaped:
  assumes "build_author_list cs opts rows = Inr (al, author_list)"
    and "main_body cs opts (Inr rows) = Inr out"
  shows "map (\<lambda>a. Inr (name a)) author_list =
           map (author_name cs opts) (sort_key Lastname rows) @
           (if more_authors opts then [Inr (ascii ''And many more to come...'')] else []) \<and>
         prefix
           (concat (map (\<lambda>a. [backslash] @ ascii ''author['' @ format_id (affiliation_id a) @
                              ascii '']{'' @ map (\<lambda>c. if is_space c then tilde else c) (name a) @
                              orcid_link a @ ascii ''}'' @ [10]) author_list) @ [10])
           (latex_text out)"
proof -
  from assms obtain ls where
    "latex_text out = concat (map author_line author_list) @ [10] @ ls"
    by (auto simp: main_body_def write_latex_def split: sum.splits)
  then have "prefix (concat (map author_line author_list) @ [10]) (latex_text out)"
    by (simp add: prefix_def)
  moreover have "author_line = (\<lambda>a. [backslash] @ ascii ''author['' @ format_id (affiliation_id a) @
                              ascii '']{'' @ map (\<lambda>c. if is_space c then tilde else c) (name a) @
                              orcid_link a @ ascii ''}'' @ [10])"
    by (rule ext) (simp add: author_line_def name_for_display_map)
  ultimately show ?thesis
    using build_author_list_names [OF assms(1)] by simp
qed


text \<open>The definitions a concrete run of the script unfolds.\<close>

lemmas run_defs = main_body_def build_author_list_def AffiliationList_init_def lookup_or_add_def
  get_id_def add_def index_of_position_def chr_def ord_def author_name_def Author_init_def
  write_latex_def author_line_def orcid_link_def format_id_def write_arxiv_def
  ARXIV_AUTHORS_PREFIX_DEFAULT_def default_options_def AFFILIATION_USE_LETTERS_def
  ascii_def is_space_def tilde_def backslash_def Let_def

text \<open>The theorem on two rows given out of order.\<close>

theorem author_line_name_not_escaped_witness:
  "build_author_list ascii_casing default_options sample_rows =
     Inr (\<lparr>reg_list = [ascii ''LAL'', ascii ''CERN''], reg_index_letter = True\<rparr>,
          [\<lparr>name = ascii ''Al Abe'', affiliation_id = Some (Letters (ascii ''a'')), orcid = None\<rparr>,
           \<lparr>name = ascii ''Zoe Zed'', affiliation_id = Some (Letters (ascii ''b'')),
             orcid = None\<rparr>]) \<and>
   main_body ascii_casing default_options (Inr sample_rows) =
     Inr \<lparr>latex_text = [backslash] @ ascii ''author[a]{Al~Abe}'' @ [10, backslash] @
                  ascii ''author[b]{Zoe~Zed}'' @ [10, 10, backslash] @
                  ascii ''affiliation[a]{LAL}'' @ [10, backslash] @
                  ascii ''affiliation[b]{CERN}'' @ [10],
           arxiv_text = ascii ''HEP Software Foundation: Al Abe, Zoe Zed'' @ [10]\<rparr> \<and>
   prefix
     ([backslash] @ ascii ''author[a]{Al~Abe}'' @ [10, backslash] @ ascii ''author[b]{Zoe~Zed}'' @
      [10, 10])
     ([backslash] @ ascii ''author[a]{Al~Abe}'' @ [10, backslash] @ ascii ''author[b]{Zoe~Zed}'' @
      [10, 10, backslash] @ ascii ''affiliation[a]{LAL}'' @ [10, backslash] @
      ascii ''affiliation[b]{CERN}'' @ [10])"
proof -
  let ?al = "\<lparr>reg_list = [ascii ''LAL'', ascii ''CERN''], reg_index_letter = True\<rparr>"
  let ?authors = "[\<lparr>name = ascii ''Al Abe'', affiliation_id = Some (Letters (ascii ''a'')),
                     orcid = None\<rparr>,
                   \<lparr>name = ascii ''Zoe Zed'', affiliation_id = Some (Letters (ascii ''b'')),
                     orcid = None\<rparr>]"
  let ?out = "\<lparr>latex_text = [backslash] @ ascii ''author[a]{Al~Abe}'' @ [10, backslash] @
                  ascii ''author[b]{Zoe~Zed}'' @ [10, 10, backslash] @
                  ascii ''affiliation[a]{LAL}'' @ [10, backslash] @
                  ascii ''affiliation[b]{CERN}'' @ [10],
                arxiv_text = ascii ''HEP Software Foundation: Al Abe, Zoe Zed'' @ [10]\<rparr>"
  have b: "build_author_list ascii_casing default_options sample_rows = Inr (?al, ?authors)"
    by (simp add: run_defs sample_rows_def)
  have m: "main_body ascii_casing default_options (Inr sample_rows) = Inr ?out"
    by (simp add: run_defs sample_rows_def)
  have "prefix
     ([backslash] @ ascii ''author[a]{Al~Abe}'' @ [10, backslash] @ ascii ''author[b]{Zoe~Zed}'' @
      [10, 10])
     ([backslash] @ ascii ''author[a]{Al~Abe}'' @ [10, backslash] @ ascii ''author[b]{Zoe~Zed}'' @
      [10, 10, backslash] @ ascii ''affiliation[a]{LAL}'' @ [10, backslash] @
      ascii ''affiliation[b]{CERN}'' @ [10])"
    using author_line_name_not_escaped [OF b m] by (simp add: run_defs)
  with b m show ?thesis by blast
qed

text \<open>
  Claim C7 as first stated has the name escaped for LaTeX. An ampersand in a first name
  reaches the author line as it is, where \<^verbatim>\<open>latex_escape\<close> would put a backslash
  before it.
\<close>

theorem author_line_escape_counterexample:
  "main_body ascii_casing default_options
     (Inr [\<lparr>Firstnames = ascii ''A&B'', Lastname = ascii ''Doe'', Affiliation = ascii ''CERN'',
            ORCID = Some []\<rparr>])
   = Inr \<lparr>latex_text = [backslash] @ ascii ''author[a]{A&B~Doe}'' @ [10, 10, backslash] @
                       ascii ''affiliation[a]{CERN}'' @ [10],
          arxiv_text = ascii ''HEP Software Foundation: A&B Doe'' @ [10]\<rparr> \<and>
   latex_escape (ascii ''A&B Doe'') = ascii ''A'' @ [backslash] @ ascii ''&B Doe''"
  by (simp add: run_defs latex_escape_def SPECIAL_LATEX_CHARS_def replace_char_def
      is_reserved_def caret_def)

section \<open>Claim C8\<close>

lemma author_name_prefix: "author_name cs (opts\<lparr>arxiv_authors_prefix := p\<rparr>) = author_name cs opts"
  by (rule ext) (simp add: author_name_def)

lemma process_rows_prefix:
  "process_rows cs (opts\<lparr>arxiv_authors_prefix := p\<rparr>) al acc rows = process_rows cs opts al acc rows"
  by (induction rows arbitrary: al acc) (simp_all add: author_name_prefix split: sum.splits)

lemma main_body_prefix:
  "main_body cs (opts\<lparr>arxiv_authors_prefix := p\<rparr>) csv_rows = main_body cs opts csv_rows"
  by (simp add: main_body_def build_author_list_def process_rows_prefix write_arxiv_def
      split: sum.splits)

text \<open>
  Claim C8 has the arXiv line start with the prefix given by the option. Line 198
  writes the constant \<^verbatim>\<open>ARXIV_AUTHORS_PREFIX_DEFAULT\<close> whatever the option holds: a run
  writes the same two files for every value of the option, and with the option set to
  another prefix the line still starts with the default one.
\<close>

theorem arxiv_prefix_option_ignored:
  "main_body cs (opts\<lparr>arxiv_authors_prefix := p\<rparr>) csv_rows = main_body cs opts csv_rows \<and>
   arxiv_authors_prefix (default_options\<lparr>arxiv_authors_prefix := ascii ''Authors: ''\<rparr>)
     = ascii ''Authors: '' \<and>
   main_body ascii_casing (default_options\<lparr>arxiv_authors_prefix := ascii ''Authors: ''\<rparr>)
     (Inr [\<lparr>Firstnames = ascii ''Ann'', Lastname = ascii ''Lee'', Affiliation = ascii ''CERN'',
            ORCID = None\<rparr>])
   = Inr \<lparr>latex_text = [backslash] @ ascii ''author[a]{Ann~Lee}'' @ [10, 10, backslash] @
                       ascii ''affiliation[a]{CERN}'' @ [10],
          arxiv_text = ascii ''HEP Software Foundation: Ann Lee'' @ [10]\<rparr>"
proof -
  have "main_body ascii_casing default_options
     (Inr [\<lparr>Firstnames = ascii ''Ann'', Lastname = ascii ''Lee'', Affiliation = ascii ''CERN'',
            ORCID = None\<rparr>])
   = Inr \<lparr>latex_text = [backslash] @ ascii ''author[a]{Ann~Lee}'' @ [10, 10, backslash] @
                       ascii ''affiliation[a]{CERN}'' @ [10],
          arxiv_text = ascii ''HEP Software Foundation: Ann Lee'' @ [10]\<rparr>"
    by (simp add: run_defs)
  then show ?thesis
    by (simp add: main_body_prefix)
qed

section \<open>Claim C9\<close>

text \<open>
  Claim C9 has option errors end the process with the option-error status and runtime
  failures with the failure status. A CSV file that cannot be opened or read ends the
  process with status 1, not \<^verbatim>\<open>EXIT_STATUS_FAILURE\<close>; a command line that
  \<^verbatim>\<open>argparse\<close> refuses with its status 2 ends it with 2, an exception caught on line
  154 ends it with 1, and even a returned \<^verbatim>\<open>EXIT_STATUS_OPTION_ERROR\<close> would end it
  with 0, since line 203 drops what \<^verbatim>\<open>main\<close> returns.
\<close>

theorem exit_status_not_the_constants:
  "exit_status (fst (main cs (Parsed opts) (Inl FileNotFoundError))) = 1 \<and>
   exit_status (fst (main cs (Parsed opts) (Inl CsvError))) = 1 \<and>
   EXIT_STATUS_FAILURE = 5 \<and>
   exit_status (fst (main cs (ParseExit 2) csv_rows)) = 2 \<and>
   exit_status (fst (main cs (ParseRaised e) csv_rows)) = 1 \<and>
   exit_status (Return (Some EXIT_STATUS_OPTION_ERROR)) = 0 \<and>
   EXIT_STATUS_OPTION_ERROR = 3"
  by (simp add: main_def main_body_def exit_status_def EXIT_STATUS_FAILURE_def
      EXIT_STATUS_OPTION_ERROR_def)

section \<open>Claim C10\<close>

lemma not_sublist_after_backslash:
  assumes "backslash \<notin> set rest" and "\<not> prefix w rest"
  shows "\<not> sublist (backslash # w) (backslash # rest)"
proof
  assume "sublist (backslash # w) (backslash # rest)"
  then obtain ps ss where e: "backslash # rest = ps @ (backslash # w) @ ss"
    by (auto simp: sublist_def)
  show False
  proof (cases ps)
    case Nil
    with e have "rest = w @ ss" by simp
    with assms(2) show False by (simp add: prefix_def)
  next
    case (Cons p ps')
    with e have "rest = ps' @ (backslash # w) @ ss" by simp
    then have "backslash \<in> set rest" by simp
    with assms(1) show False by simp
  qed
qed

lemma set_name_for_display: "set (name_for_display s) \<subseteq> insert tilde (set s)"
  by (induction s) auto

lemma process_rows_orcids:
  "process_rows cs opts al acc rows = Inr (al', author_list) \<Longrightarrow>
     map orcid author_list =
     map orcid acc @ map (\<lambda>r. orcid (Author_init [] None (ORCID r))) rows"
proof (induction rows arbitrary: al acc)
  case Nil
  then show ?case by simp
next
  case (Cons author rest)
  from Cons.prems obtain al1 i nm where
    "process_rows cs opts al1 (acc @ [Author_init nm i (ORCID author)]) rest = Inr (al', author_list)"
    by (auto split: sum.splits prod.splits)
  from Cons.IH [OF this] show ?case
    by (simp add: Author_init_def)
qed

lemma build_author_list_orcids:
  assumes "build_author_list cs opts rows = Inr (al, author_list)"
  shows "map orcid author_list =
     map (\<lambda>r. orcid (Author_init [] None (ORCID r))) (sort_key Lastname rows) @
     (if more_authors opts then [None] else [])"
proof -
  from assms obtain al1 l1 where
    p: "process_rows cs opts (AffiliationList_init (\<not> affiliation_numbers opts)) []
          (sort_key Lastname rows) = Inr (al1, l1)" and
    m: "(if more_authors opts then add_more_authors al1 l1 else Inr (al1, l1)) = Inr (al, author_list)"
    by (auto simp: build_author_list_def split: sum.splits prod.splits)
  from process_rows_orcids [OF p]
  have a: "map orcid l1 = map (\<lambda>r. orcid (Author_init [] None (ORCID r))) (sort_key Lastname rows)"
    by simp
  show ?thesis
  proof (cases "more_authors opts")
    case True
    with m have "add_more_authors al1 l1 = Inr (al, author_list)" by simp
    then have "map orcid author_list = map orcid l1 @ [None]"
      by (auto simp: add_more_authors_def Author_init_def split: sum.splits prod.splits)
    with a True show ?thesis by simp
  next
    case False
    with m a show ?thesis by simp
  qed
qed

lemma build_author_list_empty_orcid:
  assumes b: "build_author_list cs opts rows = Inr (al, author_list)"
    and k: "k < length rows" and e: "ORCID (sort_key Lastname rows ! k) = Some []"
  shows "k < length author_list \<and> orcid (author_list ! k) = None"
proof -
  let ?n = "\<lambda>r. orcid (Author_init [] None (ORCID r))"
  let ?more = "if more_authors opts then [None] else []"
  note o = build_author_list_orcids [OF b]
  have "length (map orcid author_list) = length (map ?n (sort_key Lastname rows) @ ?more)"
    using o by simp
  then have l: "k < length author_list"
    using k by simp
  then have "orcid (author_list ! k) = map orcid author_list ! k" by simp
  also have "\<dots> = (map ?n (sort_key Lastname rows) @ ?more) ! k"
    using o by simp
  also have "\<dots> = ?n (sort_key Lastname rows ! k)"
    using k by (simp add: nth_append)
  also have "\<dots> = None"
    using e by (simp add: Author_init_def)
  finally show ?thesis using l by simp
qed

text \<open>
  Claim C10. An author built with the empty string as ORCID is the author built with no
  ORCID: the field is \<^verbatim>\<open>None\<close>, the part of the author line that would hold the
  \<^verbatim>\<open>\orcidlink\<close> command is empty, and the line is the index and the name alone. When
  neither the name nor the index has a backslash in it, \<^verbatim>\<open>\orcidlink\<close> occurs nowhere
  in the line. In a run of the script, the author built from a row whose ORCID is the
  empty string has no ORCID and an empty link.
\<close>

theorem empty_orcid_is_absent:
  "Author_init nm i (Some []) = Author_init nm i None \<and>
   orcid (Author_init nm i (Some [])) = None \<and>
   orcid_link (Author_init nm i (Some [])) = [] \<and>
   author_line (Author_init nm i (Some [])) =
     [backslash] @ ascii ''author['' @ format_id i @ ascii '']{'' @ name_for_display nm @
     ascii ''}'' @ [10] \<and>
   (backslash \<notin> set nm \<and> backslash \<notin> set (format_id i) \<longrightarrow>
      \<not> sublist ([backslash] @ ascii ''orcidlink'') (author_line (Author_init nm i (Some [])))) \<and>
   (build_author_list cs opts rows = Inr (al, author_list) \<and> k < length rows \<and>
    ORCID (sort_key Lastname rows ! k) = Some [] \<longrightarrow>
      k < length author_list \<and> orcid (author_list ! k) = None \<and>
      orcid_link (author_list ! k) = [])"
proof -
  have l: "author_line (Author_init nm i (Some [])) =
     [backslash] @ ascii ''author['' @ format_id i @ ascii '']{'' @ name_for_display nm @
     ascii ''}'' @ [10]"
    by (simp add: author_line_def orcid_link_def Author_init_def)
  have s: "\<not> sublist ([backslash] @ ascii ''orcidlink'') (author_line (Author_init nm i (Some [])))"
    if h: "backslash \<notin> set nm" "backslash \<notin> set (format_id i)"
  proof -
    let ?rest = "ascii ''author['' @ format_id i @ ascii '']{'' @ name_for_display nm @ ascii ''}'' @ [10]"
    have "backslash \<notin> set (name_for_display nm)"
      using h(1) set_name_for_display [of nm] by (auto simp: backslash_def tilde_def)
    then have "backslash \<notin> set ?rest"
      using h(2) by (simp add: ascii_def backslash_def)
    moreover have "\<not> prefix (ascii ''orcidlink'') ?rest"
      by (simp add: ascii_def)
    ultimately have "\<not> sublist (backslash # ascii ''orcidlink'') (backslash # ?rest)"
      by (rule not_sublist_after_backslash)
    with l show ?thesis by simp
  qed
  have r: "k < length author_list \<and> orcid (author_list ! k) = None \<and>
      orcid_link (author_list ! k) = []"
    if "build_author_list cs opts rows = Inr (al, author_list)" "k < length rows"
      "ORCID (sort_key Lastname rows ! k) = Some []"
    using build_author_list_empty_orcid [OF that] by (simp add: orcid_link_def)
  have "Author_init nm i (Some []) = Author_init nm i None"
    "orcid (Author_init nm i (Some [])) = None"
    "orcid_link (Author_init nm i (Some [])) = []"
    by (simp_all add: Author_init_def orcid_link_def)
  with l s r show ?thesis by blast
qed

text \<open>The theorem for an author with a plain name and the index a, and for the first
  author of a run on one row with an empty ORCID.\<close>

theorem empty_orcid_is_absent_witness:
  "author_line (Author_init (ascii ''Ann Lee'') (Some (Letters (ascii ''a''))) (Some []))
     = [backslash] @ ascii ''author[a]{Ann~Lee}'' @ [10] \<and>
   \<not> sublist ([backslash] @ ascii ''orcidlink'')
       (author_line (Author_init (ascii ''Ann Lee'') (Some (Letters (ascii ''a''))) (Some []))) \<and>
   build_author_list ascii_casing default_options
     [\<lparr>Firstnames = ascii ''Ann'', Lastname = ascii ''Lee'', Affiliation = ascii ''CERN'',
       ORCID = Some []\<rparr>]
     = Inr (\<lparr>reg_list = [ascii ''CERN''], reg_index_letter = True\<rparr>,
            [\<lparr>name = ascii ''Ann Lee'', affiliation_id = Some (Letters (ascii ''a'')),
              orcid = None\<rparr>]) \<and>
   orcid_link \<lparr>name = ascii ''Ann Lee'', affiliation_id = Some (Letters (ascii ''a'')),
               orcid = None\<rparr> = []"
proof -
  let ?rows = "[\<lparr>Firstnames = ascii ''Ann'', Lastname = ascii ''Lee'', Affiliation = ascii ''CERN'',
       ORCID = Some []\<rparr>]"
  let ?al = "\<lparr>reg_list = [ascii ''CERN''], reg_index_letter = True\<rparr>"
  let ?a = "\<lparr>name = ascii ''Ann Lee'', affiliation_id = Some (Letters (ascii ''a'')),
              orcid = None\<rparr>"
  have a: "backslash \<notin> set (ascii ''Ann Lee'')"
    by (simp add: ascii_def backslash_def)
  have b: "backslash \<notin> set (format_id (Some (Letters (ascii ''a''))))"
    by (simp add: format_id_def ascii_def backslash_def)
  have c: "build_author_list ascii_casing default_options ?rows = Inr (?al, [?a])"
    by (simp add: run_defs)
  have d: "(0::nat) < length ?rows" "ORCID (sort_key Lastname ?rows ! 0) = Some []"
    by simp_all
  note t = empty_orcid_is_absent [of "ascii ''Ann Lee''" "Some (Letters (ascii ''a''))"
      ascii_casing default_options ?rows ?al "[?a]" 0]
  from t have "author_line (Author_init (ascii ''Ann Lee'') (Some (Letters (ascii ''a''))) (Some [])) =
     [backslash] @ ascii ''author['' @ format_id (Some (Letters (ascii ''a''))) @ ascii '']{'' @
     name_for_display (ascii ''Ann Lee'') @ ascii ''}'' @ [10]"
    by blast
  then have l: "author_line (Author_init (ascii ''Ann Lee'') (Some (Letters (ascii ''a''))) (Some []))
     = [backslash] @ ascii ''author[a]{Ann~Lee}'' @ [10]"
    by (simp add: format_id_def ascii_def is_space_def tilde_def)
  from t a b have s: "\<not> sublist ([backslash] @ ascii ''orcidlink'')
       (author_line (Author_init (ascii ''Ann Lee'') (Some (Letters (ascii ''a''))) (Some [])))"
    by blast
  from t c d have "orcid_link ([?a] ! 0) = []"
    by blast
  then have "orcid_link ?a = []" by simp
  with l s c show ?thesis by blast
qed

end
